theory Spec2Isabelle
  imports Main "HOL-Library.Sublist"
begin

section \<open>ScreamingTom: a bounded, polite, single-site crawler\<close>

text \<open>
  A shallow embedding of \<^verbatim>\<open>ScreamingTom.py\<close>. Strings are \<open>string\<close> (lists of
  characters below 256); the sets of the program are HOL sets, except the frontier, which
  is a duplicate-free list so that "pop an arbitrary element" can be driven by a schedule
  of indices. Everything the program does to the outside world (HTTP requests,
  navigations, sleeps) is recorded in an event log carried by the state.
\<close>

subsection \<open>Exceptions\<close>

datatype error =
    ValueError      \<comment> \<open>\<^verbatim>\<open>int()\<close> or \<^verbatim>\<open>urlparse\<close> rejects its argument\<close>
  | IndexError      \<comment> \<open>list index out of range\<close>
  | BrowserError    \<comment> \<open>the headless browser cannot be launched or set up\<close>

subsection \<open>Python string operations\<close>

text \<open>\<^verbatim>\<open>sub in s\<close> on strings: \<open>sub\<close> occurs in \<open>s\<close> as a contiguous substring.\<close>

fun substring :: "string \<Rightarrow> string \<Rightarrow> bool" where
  "substring sub [] = (sub = [])"
| "substring sub (c # cs) = (prefix sub (c # cs) \<or> substring sub cs)"

text \<open>\<^verbatim>\<open>s.split(sep)\<close> for a one-character separator: always at least one piece.\<close>

fun split_on :: "char \<Rightarrow> string \<Rightarrow> string list" where
  "split_on sep [] = [[]]"
| "split_on sep (c # cs) =
     (if c = sep then [] # split_on sep cs
      else (case split_on sep cs of
              [] \<Rightarrow> [[c]]
            | p # ps \<Rightarrow> (c # p) # ps))"

text \<open>\<^verbatim>\<open>xs[i]\<close> for \<open>i \<ge> 0\<close>: out of range raises \<^verbatim>\<open>IndexError\<close>.\<close>

definition index :: "'a list \<Rightarrow> nat \<Rightarrow> error + 'a" where
  "index xs i = (if i < length xs then Inr (xs ! i) else Inl IndexError)"

text \<open>The characters \<^verbatim>\<open>str.isspace\<close> accepts below 256, which \<^verbatim>\<open>str.strip()\<close> and
  \<^verbatim>\<open>int()\<close> remove at both ends.\<close>

definition py_isspace :: "char \<Rightarrow> bool" where
  "py_isspace c = (c \<in> set [CHR 0x09, CHR 0x0A, CHR 0x0B, CHR 0x0C, CHR 0x0D,
                             CHR 0x1C, CHR 0x1D, CHR 0x1E, CHR 0x1F, CHR 0x20,
                             CHR 0x85, CHR 0xA0])"

definition py_strip :: "string \<Rightarrow> string" where
  "py_strip s = rev (dropWhile py_isspace (rev (dropWhile py_isspace s)))"

text \<open>The line boundaries of \<^verbatim>\<open>str.splitlines()\<close> below 256; \<^verbatim>\<open>\r\n\<close> is one boundary,
  and a final boundary does not open an empty last line.\<close>

definition linebreak :: "char \<Rightarrow> bool" where
  "linebreak c = (c \<in> set [CHR 0x0A, CHR 0x0B, CHR 0x0C, CHR 0x0D,
                            CHR 0x1C, CHR 0x1D, CHR 0x1E, CHR 0x85])"

fun splitlines_from :: "string \<Rightarrow> string \<Rightarrow> string list" where
  "splitlines_from cur [] = (if cur = [] then [] else [rev cur])"
| "splitlines_from cur [c] = (if linebreak c then [rev cur] else [rev (c # cur)])"
| "splitlines_from cur (c # d # cs) =
     (if c = CHR 0x0D \<and> d = CHR 0x0A then rev cur # splitlines_from [] cs
      else if linebreak c then rev cur # splitlines_from [] (d # cs)
      else splitlines_from (c # cur) (d # cs))"

definition splitlines :: "string \<Rightarrow> string list" where
  "splitlines s = splitlines_from [] s"

subsection \<open>\<^verbatim>\<open>int(s)\<close>\<close>

text \<open>
  \<^verbatim>\<open>int\<close> on a string in base 10: surrounding whitespace is dropped, one sign is allowed,
  then decimal digits, where single underscores may separate digits. More than 4300 digits
  (the default of \<^verbatim>\<open>sys.set_int_max_str_digits\<close>; underscores and the sign are not
  counted) are rejected.
\<close>

text \<open>\<^verbatim>\<open>ord(c)\<close>.\<close>

definition ord :: "char \<Rightarrow> nat" where
  "ord c = of_char c"

definition is_digit :: "char \<Rightarrow> bool" where
  "is_digit c = (48 \<le> ord c \<and> ord c \<le> 57)"

definition digit_val :: "char \<Rightarrow> int" where
  "digit_val c = int (ord c) - 48"

fun digits_ok :: "string \<Rightarrow> bool" where
  "digits_ok [] = False"
| "digits_ok [c] = is_digit c"
| "digits_ok (c # d # cs) =
     (is_digit c \<and> (if d = CHR ''_'' then digits_ok cs else digits_ok (d # cs)))"

definition digits_value :: "string \<Rightarrow> int" where
  "digits_value s = foldl (\<lambda>acc c. 10 * acc + digit_val c) 0 (filter is_digit s)"

definition py_int :: "string \<Rightarrow> error + int" where
  "py_int s =
     (let t = py_strip s;
          neg = (case t of [] \<Rightarrow> False | c # _ \<Rightarrow> c = CHR ''-'');
          body = (case t of [] \<Rightarrow> []
                  | c # r \<Rightarrow> if c = CHR ''-'' \<or> c = CHR ''+'' then r else t)
      in if digits_ok body \<and> length (filter is_digit body) \<le> 4300
         then Inr (if neg then - digits_value body else digits_value body)
         else Inl ValueError)"

subsection \<open>\<^verbatim>\<open>urllib.parse.urlparse\<close>\<close>

text \<open>
  The standard library's \<^verbatim>\<open>urlparse\<close> (CPython 3.11), for strings of characters below
  128, reduced to the two components the crawler reads. Leading control characters and
  spaces are dropped, tab, CR and LF are removed, a scheme is split off at the first colon
  when everything before it is a scheme character, a \<^verbatim>\<open>//\<close> opens the network location,
  which ends at the first of \<^verbatim>\<open>/ ? #\<close>; an unbalanced square bracket there raises
  \<^verbatim>\<open>ValueError\<close>. Then the fragment, the query and (for the schemes that have them) the
  parameters of the last path segment are split off. The check of the address between a
  balanced pair of brackets is not modelled.
\<close>

record parse_result =
  path :: string
  query :: string

definition is_alpha :: "char \<Rightarrow> bool" where
  "is_alpha c = ((97 \<le> ord c \<and> ord c \<le> 122) \<or> (65 \<le> ord c \<and> ord c \<le> 90))"

definition scheme_char :: "char \<Rightarrow> bool" where
  "scheme_char c = (is_alpha c \<or> is_digit c \<or> c \<in> set ''+-.'')"

definition lower_char :: "char \<Rightarrow> char" where
  "lower_char c =
     (if 65 \<le> ord c \<and> ord c \<le> 90 then char_of (ord c + 32) else c)"

definition uses_params :: "string list" where
  "uses_params = ['''', ''ftp'', ''hdl'', ''prospero'', ''http'', ''imap'', ''https'',
                  ''shttp'', ''rtsp'', ''rtsps'', ''rtspu'', ''sip'', ''sips'', ''mms'', ''sftp'',
                  ''tel'']"

text \<open>\<^verbatim>\<open>_splitparams\<close>: the path without the parameters of its last segment.\<close>

definition splitparams_path :: "string \<Rightarrow> string" where
  "splitparams_path p =
     (if CHR ''/'' \<in> set p
      then (let last_seg = rev (takeWhile (\<lambda>c. c \<noteq> CHR ''/'') (rev p));
                front = take (length p - length last_seg) p
            in front @ takeWhile (\<lambda>c. c \<noteq> CHR '';'') last_seg)
      else takeWhile (\<lambda>c. c \<noteq> CHR '';'') p)"

definition urlparse :: "string \<Rightarrow> error + parse_result" where
  "urlparse url0 =
     (let url1 = filter (\<lambda>c. c \<notin> set [CHR 0x09, CHR 0x0D, CHR 0x0A])
                   (dropWhile (\<lambda>c. ord c \<le> 32) url0);
          pre = takeWhile (\<lambda>c. c \<noteq> CHR '':'') url1;
          has_scheme = (CHR '':'' \<in> set url1 \<and> pre \<noteq> [] \<and> is_alpha (hd pre)
                        \<and> list_all scheme_char pre);
          scheme = (if has_scheme then map lower_char pre else []);
          url2 = (if has_scheme then drop (Suc (length pre)) url1 else url1);
          has_netloc = (take 2 url2 = ''//'');
          netloc = (if has_netloc
                    then takeWhile (\<lambda>c. c \<notin> set ''/?#'') (drop 2 url2) else []);
          url3 = (if has_netloc then drop (2 + length netloc) url2 else url2);
          url4 = takeWhile (\<lambda>c. c \<noteq> CHR ''#'') url3;
          p = takeWhile (\<lambda>c. c \<noteq> CHR ''?'') url4;
          q = drop 1 (dropWhile (\<lambda>c. c \<noteq> CHR ''?'') url4)
      in if (CHR ''['' \<in> set netloc) \<noteq> (CHR '']'' \<in> set netloc)
         then Inl ValueError
         else Inr \<lparr>path = (if scheme \<in> set uses_params \<and> CHR '';'' \<in> set p
                            then splitparams_path p else p),
                    query = q\<rparr>)"

subsection \<open>URL normalizer\<close>

text \<open>\<^verbatim>\<open>is_login_redirect\<close>: substring tests on the parsed path and query; the exception
  of \<^verbatim>\<open>urlparse\<close> is not caught here.\<close>

definition is_login_redirect :: "string \<Rightarrow> error + bool" where
  "is_login_redirect url =
     (case urlparse url of
        Inl e \<Rightarrow> Inl e
      | Inr parsed \<Rightarrow>
          Inr (substring ''sign_in'' (path parsed) \<and> substring ''destination'' (query parsed)))"

text \<open>\<^verbatim>\<open>url.split('#')[0]\<close>.\<close>

definition strip_url_fragment :: "string \<Rightarrow> string" where
  "strip_url_fragment url = hd (split_on CHR ''#'' url)"


subsection \<open>The outside world\<close>

text \<open>
  What the crawler cannot compute: the answer of \<^verbatim>\<open>requests.get\<close> for a URL, whether
  the browser session can be set up (lines 54 to 56), the outcome of \<^verbatim>\<open>page.goto\<close>, and
  the results of the three DOM queries on the page loaded from a URL (\<open>None\<close>: the query
  raises). The three queries are independent, since the DOM may change between them.
\<close>

datatype http_result = RequestFails | Response int string

datatype goto_result = GotoRaises | NoResponse | GotoStatus int

record world =
  launch_ok :: bool
  requests_get :: "string \<Rightarrow> http_result"
  goto :: "string \<Rightarrow> goto_result"
  eval_links :: "string \<Rightarrow> string list option"      \<comment> \<open>\<^verbatim>\<open>a[href]\<close>, line 30\<close>
  eval_images :: "string \<Rightarrow> string list option"     \<comment> \<open>\<^verbatim>\<open>img[src]\<close>, line 44\<close>
  eval_anchors :: "string \<Rightarrow> string list option"    \<comment> \<open>\<^verbatim>\<open>a[href]\<close>, line 46\<close>

text \<open>The effects of a run, in order.\<close>

datatype event = HttpGet string | Goto string | Sleep int

subsection \<open>Politeness policy\<close>

text \<open>Line 23, \<^verbatim>\<open>int(line.split(":")[1].strip())\<close>: the text between the first and the
  second colon, as an integer.\<close>

definition parse_directive :: "string \<Rightarrow> error + int" where
  "parse_directive line =
     (case index (split_on CHR '':'' line) 1 of
        Inl e \<Rightarrow> Inl e
      | Inr piece \<Rightarrow> py_int (py_strip piece))"

text \<open>The \<^verbatim>\<open>for\<close> loop of lines 21 to 23: the first line containing \<^verbatim>\<open>Crawl-delay\<close>
  decides, by a value or by an exception.\<close>

fun scan_lines :: "string list \<Rightarrow> error + int option" where
  "scan_lines [] = Inr None"
| "scan_lines (line # lines) =
     (if substring ''Crawl-delay'' line
      then (case parse_directive line of
              Inl e \<Rightarrow> Inl e
            | Inr n \<Rightarrow> Inr (Some n))
      else scan_lines lines)"

text \<open>\<^verbatim>\<open>get_crawl_delay_from_robots_txt\<close>: one GET; every exception ends in \<open>None\<close>.\<close>

definition get_crawl_delay_from_robots_txt :: "world \<Rightarrow> string \<Rightarrow> int option \<times> event list" where
  "get_crawl_delay_from_robots_txt w base_url =
     (let target = base_url @ ''/robots.txt''
      in (case requests_get w target of
            RequestFails \<Rightarrow> None
          | Response status body \<Rightarrow>
              if status = 200
              then (case scan_lines (splitlines body) of
                      Inl e \<Rightarrow> None
                    | Inr r \<Rightarrow> r)
              else None,
          [HttpGet target]))"

text \<open>Lines 58 to 60 of \<^verbatim>\<open>crawl_website\<close>: the default of one second.\<close>

definition resolve_crawl_delay :: "world \<Rightarrow> string \<Rightarrow> int \<times> event list" where
  "resolve_crawl_delay w url =
     (case get_crawl_delay_from_robots_txt w url of
        (None, evs) \<Rightarrow> (1, evs)
      | (Some d, evs) \<Rightarrow> (d, evs))"

subsection \<open>Page renderer\<close>

text \<open>\<^verbatim>\<open>get_all_links\<close>: the hrefs as a set (a duplicate-free list), empty when the
  query raises.\<close>

definition get_all_links :: "world \<Rightarrow> string \<Rightarrow> string list" where
  "get_all_links w page = (case eval_links w page of None \<Rightarrow> [] | Some links \<Rightarrow> remdups links)"

text \<open>The extension list of line 45.\<close>

definition page_file_extensions :: "string list" where
  "page_file_extensions = [''.pdf'', ''.doc'', ''.docx'', ''.zip'', ''.rar'', ''.ppt'',
                           ''.pptx'', ''.xls'', ''.xlsx'', ''.csv'']"

text \<open>\<^verbatim>\<open>count_files_and_images\<close>: either query raising gives two empty lists.\<close>

definition count_files_and_images :: "world \<Rightarrow> string \<Rightarrow> string list \<times> string list" where
  "count_files_and_images w page =
     (case eval_images w page of
        None \<Rightarrow> ([], [])
      | Some images \<Rightarrow>
          (case eval_anchors w page of
             None \<Rightarrow> ([], [])
           | Some files \<Rightarrow>
               (filter (\<lambda>link. list_ex (\<lambda>ext. substring ext link) page_file_extensions) files,
                images)))"

subsection \<open>Crawl engine\<close>

record crawl_state =
  urls_to_crawl :: "string list"
  visited_urls :: "string set"
  pages_set :: "string set"
  files_set :: "string set"
  trace :: "event list"

text \<open>The extension list of lines 79 to 81.\<close>

definition file_extensions :: "string list" where
  "file_extensions = [''.pdf'', ''.doc'', ''.docx'', ''.zip'', ''.rar'', ''.ppt'', ''.pptx'',
                      ''.xls'', ''.xlsx'', ''.csv'', ''.jpg'', ''.jpeg'', ''.png'', ''.gif'',
                      ''.mp3'', ''.wav'', ''.ogg'', ''.m4a'', ''.mp4'', ''.avi'', ''.mov'',
                      ''.mkv'']"

text \<open>\<^verbatim>\<open>urls_to_crawl.pop()\<close> on a non-empty set removes an arbitrary element: the one at
  position \<open>k mod length\<close>, for a \<open>k\<close> the schedule supplies.\<close>

definition pop_at :: "nat \<Rightarrow> string list \<Rightarrow> string \<times> string list" where
  "pop_at k xs = (let i = k mod length xs in (xs ! i, take i xs @ drop (Suc i) xs))"

text \<open>
  \<^verbatim>\<open>asyncio.sleep(d)\<close> returns at once for \<open>d \<le> 0\<close>; otherwise it schedules a timer at
  \<^verbatim>\<open>loop.time() + d\<close>, a float addition, which raises \<^verbatim>\<open>OverflowError\<close> when \<open>d\<close> is
  too large to convert to a float: from \<open>2^1024 - 2^970\<close> on.
\<close>

definition sleep_raises :: "int \<Rightarrow> bool" where
  "sleep_raises d = (d \<ge> 2 ^ 1024 - 2 ^ 970)"

text \<open>The \<^verbatim>\<open>try\<close> block of lines 89 to 107, entered with the URL already marked. An
  exception of \<^verbatim>\<open>page.goto\<close> leaves the block before the sleep, and an exception of the
  sleep leaves it before the response is looked at; both end in the handler of line 106.\<close>

definition visit_page :: "world \<Rightarrow> string \<Rightarrow> int \<Rightarrow> string \<Rightarrow> crawl_state \<Rightarrow> crawl_state" where
  "visit_page w url crawl_delay current_url st =
     (case goto w current_url of
        GotoRaises \<Rightarrow> st\<lparr>trace := trace st @ [Goto current_url]\<rparr>
      | NoResponse \<Rightarrow>
          if sleep_raises crawl_delay then st\<lparr>trace := trace st @ [Goto current_url]\<rparr>
          else st\<lparr>trace := trace st @ [Goto current_url, Sleep crawl_delay]\<rparr>
      | GotoStatus status \<Rightarrow>
          if sleep_raises crawl_delay then st\<lparr>trace := trace st @ [Goto current_url]\<rparr>
          else (let st1 = st\<lparr>trace := trace st @ [Goto current_url, Sleep crawl_delay]\<rparr>
           in if status \<noteq> 200 then st1
              else (let links = get_all_links w current_url;
                        internal_links = map strip_url_fragment (filter (substring url) links);
                        st2 = st1\<lparr>urls_to_crawl := List.union internal_links (urls_to_crawl st1)\<rparr>;
                        (files_on_page, images_on_page) = count_files_and_images w current_url
                    in st2\<lparr>files_set := files_set st2 \<union> set (files_on_page @ images_on_page)\<rparr>)))"

text \<open>One pass through the body of the \<^verbatim>\<open>while\<close> loop after the budget check (lines 71 to
  107). An exception carries the state it left behind.\<close>

definition iteration ::
  "world \<Rightarrow> string \<Rightarrow> int \<Rightarrow> nat \<Rightarrow> crawl_state \<Rightarrow> (error \<times> crawl_state) + crawl_state" where
  "iteration w url crawl_delay k st =
     (let (popped, rest) = pop_at k (urls_to_crawl st);
          current_url = strip_url_fragment popped;
          st1 = st\<lparr>urls_to_crawl := rest\<rparr>
      in (case is_login_redirect current_url of
            Inl e \<Rightarrow> Inl (e, st1)
          | Inr login \<Rightarrow>
              if login then Inr st1
              else if current_url \<in> visited_urls st1 then Inr st1
              else if list_ex (\<lambda>ext. substring ext current_url) file_extensions
              then Inr (st1\<lparr>files_set := insert current_url (files_set st1)\<rparr>)
              else Inr (visit_page w url crawl_delay current_url
                          (st1\<lparr>visited_urls := insert current_url (visited_urls st1),
                               pages_set := insert current_url (pages_set st1)\<rparr>))))"

text \<open>The loop exits when the frontier is empty or the budget is exceeded (lines 67 to
  69).\<close>

definition loop_exits :: "crawl_state \<Rightarrow> bool" where
  "loop_exits st =
     (urls_to_crawl st = [] \<or> card (pages_set st) + card (files_set st) > 200)"

text \<open>The \<^verbatim>\<open>while\<close> loop. The schedule gives the position popped in each iteration and
  bounds the number of iterations: \<open>None\<close> means the schedule ran out before the loop
  exited.\<close>

fun crawl_loop ::
  "world \<Rightarrow> string \<Rightarrow> int \<Rightarrow> nat list \<Rightarrow> crawl_state
     \<Rightarrow> ((error \<times> crawl_state) + crawl_state) option" where
  "crawl_loop w url crawl_delay [] st = (if loop_exits st then Some (Inr st) else None)"
| "crawl_loop w url crawl_delay (k # ks) st =
     (if loop_exits st then Some (Inr st)
      else (case iteration w url crawl_delay k st of
              Inl raised \<Rightarrow> Some (Inl raised)
            | Inr st' \<Rightarrow> crawl_loop w url crawl_delay ks st'))"

text \<open>\<^verbatim>\<open>crawl_website(url, visited_urls)\<close>. The final state holds the returned
  \<open>pages_set\<close> and \<open>files_set\<close> and the caller's \<open>visited_urls\<close> object as the run left
  it.\<close>

definition crawl_website ::
  "world \<Rightarrow> nat list \<Rightarrow> string \<Rightarrow> string set \<Rightarrow> ((error \<times> crawl_state) + crawl_state) option" where
  "crawl_website w sched url visited =
     (if \<not> launch_ok w
      then Some (Inl (BrowserError,
             \<lparr>urls_to_crawl = [], visited_urls = visited, pages_set = {}, files_set = {},
              trace = []\<rparr>))
      else (let (crawl_delay, evs) = resolve_crawl_delay w url
            in crawl_loop w url crawl_delay sched
                 \<lparr>urls_to_crawl = [url], visited_urls = visited, pages_set = {},
                  files_set = {}, trace = evs\<rparr>))"

text \<open>
  The default of the parameter, \<^verbatim>\<open>visited_urls=set()\<close>, is one object, made when the
  function is defined and kept by the process: a call without the argument works on that
  object, and what the call adds to it stays.
\<close>

record process =
  default_visited :: "string set"

definition process_start :: process where
  "process_start = \<lparr>default_visited = {}\<rparr>"

definition final_visited :: "((error \<times> crawl_state) + crawl_state) \<Rightarrow> string set" where
  "final_visited r = (case r of Inl (e, st) \<Rightarrow> visited_urls st | Inr st \<Rightarrow> visited_urls st)"

definition call_crawl_website ::
  "world \<Rightarrow> nat list \<Rightarrow> string \<Rightarrow> string set option \<Rightarrow> process
     \<Rightarrow> ((error \<times> crawl_state) + crawl_state) option \<times> process" where
  "call_crawl_website w sched url arg p =
     (case arg of
        Some visited \<Rightarrow> (crawl_website w sched url visited, p)
      | None \<Rightarrow>
          (let r = crawl_website w sched url (default_visited p)
           in (r, case r of
                    None \<Rightarrow> p
                  | Some res \<Rightarrow> p\<lparr>default_visited := final_visited res\<rparr>)))"

subsection \<open>Example sites\<close>

text \<open>A world in which only the answer to the \<^verbatim>\<open>robots.txt\<close> request matters.\<close>

definition robots_world :: "http_result \<Rightarrow> world" where
  "robots_world r =
     \<lparr>launch_ok = True, requests_get = (\<lambda>u. r), goto = (\<lambda>u. GotoRaises),
      eval_links = (\<lambda>u. None), eval_images = (\<lambda>u. None), eval_anchors = (\<lambda>u. None)\<rparr>"

text \<open>A site whose every page shows 201 images and one internal link.\<close>

definition gallery_site :: world where
  "gallery_site =
     \<lparr>launch_ok = True,
      requests_get = (\<lambda>u. RequestFails),
      goto = (\<lambda>u. GotoStatus 200),
      eval_links = (\<lambda>u. Some [''http://s/a'']),
      eval_images = (\<lambda>u. Some (map (\<lambda>n. ''i'' @ replicate n CHR ''x'') [0..<201])),
      eval_anchors = (\<lambda>u. Some [])\<rparr>"

definition gallery_final :: crawl_state where
  "gallery_final =
     \<lparr>urls_to_crawl = [''http://s/a''], visited_urls = {''http://s/''},
      pages_set = {''http://s/''},
      files_set = set (map (\<lambda>n. ''i'' @ replicate n CHR ''x'') [0..<201]),
      trace = [HttpGet ''http://s//robots.txt'', Goto ''http://s/'', Sleep 1]\<rparr>"

subsection \<open>The specification's reading of a login redirect\<close>

text \<open>As the specification words it: some segment of the path is \<^verbatim>\<open>sign_in\<close>, and some
  parameter of the query string is named \<^verbatim>\<open>destination\<close>.\<close>

definition spec_is_login_redirect :: "string \<Rightarrow> bool" where
  "spec_is_login_redirect url =
     (case urlparse url of
        Inl e \<Rightarrow> False
      | Inr parsed \<Rightarrow>
          ''sign_in'' \<in> set (split_on CHR ''/'' (path parsed))
          \<and> ''destination'' \<in> set (map (takeWhile (\<lambda>c. c \<noteq> CHR ''=''))
                                       (split_on CHR ''&'' (query parsed))))"

subsection \<open>Reading the event log\<close>

text \<open>The URLs \<^verbatim>\<open>page.goto\<close> was called with, in order.\<close>

fun navigations :: "event list \<Rightarrow> string list" where
  "navigations [] = []"
| "navigations (Goto u # evs) = u # navigations evs"
| "navigations (ev # evs) = navigations evs"

text \<open>What deduplication at dequeue maintains, for a run entered with the set \<open>visited0\<close>:
  no URL is navigated twice, the navigated URLs are visited, were not visited before the
  run, and are the pages.\<close>

definition dedup_inv :: "string set \<Rightarrow> crawl_state \<Rightarrow> bool" where
  "dedup_inv visited0 st =
     (distinct (navigations (trace st))
      \<and> set (navigations (trace st)) \<subseteq> visited_urls st
      \<and> set (navigations (trace st)) \<inter> visited0 = {}
      \<and> visited0 \<subseteq> visited_urls st
      \<and> pages_set st = set (navigations (trace st)))"

text \<open>A one-page site whose page links to itself.\<close>

definition self_link_site :: world where
  "self_link_site =
     \<lparr>launch_ok = True,
      requests_get = (\<lambda>u. RequestFails),
      goto = (\<lambda>u. GotoStatus 200),
      eval_links = (\<lambda>u. Some [''http://s/'']),
      eval_images = (\<lambda>u. Some []),
      eval_anchors = (\<lambda>u. Some [])\<rparr>"

definition self_link_start :: crawl_state where
  "self_link_start =
     \<lparr>urls_to_crawl = [''http://s/''], visited_urls = {}, pages_set = {}, files_set = {},
      trace = [HttpGet ''http://s//robots.txt'']\<rparr>"

definition self_link_after :: crawl_state where
  "self_link_after =
     \<lparr>urls_to_crawl = [''http://s/''], visited_urls = {''http://s/''},
      pages_set = {''http://s/''}, files_set = {},
      trace = [HttpGet ''http://s//robots.txt'', Goto ''http://s/'', Sleep 1]\<rparr>"










text \<open>A page with two anchors to another host: a video and a document.\<close>

definition media_site :: world where
  "media_site =
     \<lparr>launch_ok = True,
      requests_get = (\<lambda>u. RequestFails),
      goto = (\<lambda>u. GotoStatus 200),
      eval_links = (\<lambda>u. Some [''http://o/c.mp4'', ''http://o/d.pdf'']),
      eval_images = (\<lambda>u. Some []),
      eval_anchors = (\<lambda>u. Some [''http://o/c.mp4'', ''http://o/d.pdf''])\<rparr>"

text \<open>A site whose page has one anchor whose href is no URL: a host that opens a square
  bracket and never closes it. The seed occurs in it, so it counts as internal.\<close>

definition broken_link_site :: world where
  "broken_link_site =
     \<lparr>launch_ok = True,
      requests_get = (\<lambda>u. RequestFails),
      goto = (\<lambda>u. GotoStatus 200),
      eval_links = (\<lambda>u. Some [''http://[?http://s/'']),
      eval_images = (\<lambda>u. Some [''http://s/i.png'']),
      eval_anchors = (\<lambda>u. Some [''http://[?http://s/''])\<rparr>"

definition broken_link_after :: crawl_state where
  "broken_link_after =
     \<lparr>urls_to_crawl = [''http://[?http://s/''], visited_urls = {''http://s/''},
      pages_set = {''http://s/''}, files_set = {''http://s/i.png''},
      trace = [HttpGet ''http://s//robots.txt'', Goto ''http://s/'', Sleep 1]\<rparr>"

text \<open>A site whose seed page links to two pages that cannot be navigated to.\<close>

definition dead_links_site :: world where
  "dead_links_site =
     \<lparr>launch_ok = True,
      requests_get = (\<lambda>u. RequestFails),
      goto = (\<lambda>u. if u = ''http://s/'' then GotoStatus 200 else GotoRaises),
      eval_links = (\<lambda>u. Some [''http://s/a'', ''http://s/b'']),
      eval_images = (\<lambda>u. Some []),
      eval_anchors = (\<lambda>u. Some [])\<rparr>"

definition dead_links_after :: crawl_state where
  "dead_links_after =
     \<lparr>urls_to_crawl = [''http://s/b'', ''http://s/a''], visited_urls = {''http://s/''},
      pages_set = {''http://s/''}, files_set = {},
      trace = [HttpGet ''http://s//robots.txt'', Goto ''http://s/'', Sleep 1]\<rparr>"

section \<open>Properties\<close>

subsection \<open>Strings\<close>

lemma substring_sublist: "substring sub s = sublist sub s"
  by (induction s) (auto simp: sublist_Cons_right)

lemma split_on_nonempty: "split_on c u \<noteq> []"
  by (induction u) (auto split: list.splits)

lemma hd_split_on: "hd (split_on c u) = takeWhile (\<lambda>x. x \<noteq> c) u"
  by (induction u) (auto simp: split_on_nonempty split: list.splits)




subsection \<open>Evaluating the example URLs\<close>

lemmas urlparse_eval = is_login_redirect_def urlparse_def ord_def is_alpha_def is_digit_def
  scheme_char_def lower_char_def uses_params_def splitparams_path_def

lemma seed_not_login: "is_login_redirect ''http://s/'' = Inr False"
  by (simp add: urlparse_eval)

lemma seed_not_file: "list_ex (\<lambda>ext. substring ext ''http://s/'') file_extensions = False"
  by (simp add: file_extensions_def)

lemma seed_stripped: "strip_url_fragment ''http://s/'' = ''http://s/''"
  by (simp add: strip_url_fragment_def)

lemma a_internal: "substring ''http://s/'' ''http://s/a''"
  by simp

lemma sleep_one: "\<not> sleep_raises 1"
  by (simp add: sleep_raises_def)

subsection \<open>The politeness default\<close>

lemma scan_lines_find:
  "scan_lines ls =
     (case find (substring ''Crawl-delay'') ls of
        None \<Rightarrow> Inr None
      | Some line \<Rightarrow> (case parse_directive line of Inl e \<Rightarrow> Inl e | Inr n \<Rightarrow> Inr (Some n)))"
  by (induction ls) auto

text \<open>
  Claim C9. The crawl delay is exactly 1 when the request for \<^verbatim>\<open>robots.txt\<close> fails,
  when its status is not 200, when no line contains \<^verbatim>\<open>Crawl-delay\<close>, and when the
  first such line does not parse (no colon, or no integer after it); in each case
  exactly one request has been made.
\<close>

theorem resolve_crawl_delay_default:
  assumes "requests_get w (url @ ''/robots.txt'') = RequestFails
         \<or> (\<exists>status body. requests_get w (url @ ''/robots.txt'') = Response status body
              \<and> (status \<noteq> 200
                 \<or> find (substring ''Crawl-delay'') (splitlines body) = None
                 \<or> (\<exists>line e. find (substring ''Crawl-delay'') (splitlines body) = Some line
                      \<and> parse_directive line = Inl e)))"
  shows "resolve_crawl_delay w url = (1, [HttpGet (url @ ''/robots.txt'')])"
  using assms
  by (auto simp: resolve_crawl_delay_def get_crawl_delay_from_robots_txt_def scan_lines_find)

lemma robots_no_directive: "splitlines ''User-agent: *'' = [''User-agent: *'']"
  by (simp add: splitlines_def linebreak_def)

lemma robots_fraction: "splitlines ''Crawl-delay: 0.5'' = [''Crawl-delay: 0.5'']"
  by (simp add: splitlines_def linebreak_def)

lemma robots_fraction_rejected: "parse_directive ''Crawl-delay: 0.5'' = Inl ValueError"
  by (simp add: parse_directive_def index_def py_int_def py_strip_def py_isspace_def
      is_digit_def ord_def)

theorem resolve_crawl_delay_default_witness:
  "resolve_crawl_delay (robots_world RequestFails) ''http://s''
     = (1, [HttpGet ''http://s/robots.txt''])
   \<and> resolve_crawl_delay (robots_world (Response 404 ''Not Found'')) ''http://s''
     = (1, [HttpGet ''http://s/robots.txt''])
   \<and> find (substring ''Crawl-delay'') (splitlines ''User-agent: *'') = None
   \<and> resolve_crawl_delay (robots_world (Response 200 ''User-agent: *'')) ''http://s''
     = (1, [HttpGet ''http://s/robots.txt''])
   \<and> find (substring ''Crawl-delay'') (splitlines ''Crawl-delay: 0.5'')
     = Some ''Crawl-delay: 0.5''
   \<and> parse_directive ''Crawl-delay: 0.5'' = Inl ValueError
   \<and> resolve_crawl_delay (robots_world (Response 200 ''Crawl-delay: 0.5'')) ''http://s''
     = (1, [HttpGet ''http://s/robots.txt''])"
  using resolve_crawl_delay_default [of "robots_world RequestFails" "''http://s''"]
        resolve_crawl_delay_default [of "robots_world (Response 404 ''Not Found'')" "''http://s''"]
        resolve_crawl_delay_default [of "robots_world (Response 200 ''User-agent: *'')" "''http://s''"]
        resolve_crawl_delay_default [of "robots_world (Response 200 ''Crawl-delay: 0.5'')" "''http://s''"]
  by (simp add: robots_world_def robots_no_directive robots_fraction robots_fraction_rejected)

subsection \<open>The loop\<close>

lemma crawl_loop_exits: "loop_exits st \<Longrightarrow> crawl_loop w url d sched st = Some (Inr st)"
  by (cases sched) simp_all

text \<open>An invariant of the iterations holds in the final state, and a final state other
  than the initial one is the result of one iteration from a state in which the loop had
  not exited.\<close>

lemma crawl_loop_last_step:
  assumes "crawl_loop w url d sched st0 = Some (Inr fin)"
      and "I st0"
      and step: "\<And>st k st'. I st \<Longrightarrow> \<not> loop_exits st \<Longrightarrow> iteration w url d k st = Inr st' \<Longrightarrow> I st'"
  shows "I fin \<and> loop_exits fin
         \<and> (fin = st0 \<or> (\<exists>st k. I st \<and> \<not> loop_exits st \<and> iteration w url d k st = Inr fin))"
  using assms(1,2)
proof (induction sched arbitrary: st0)
  case Nil
  then show ?case by (auto split: if_splits)
next
  case (Cons k ks)
  show ?case
  proof (cases "loop_exits st0")
    case True
    with Cons.prems show ?thesis by simp
  next
    case False
    with Cons.prems obtain st1 where it: "iteration w url d k st0 = Inr st1"
      and rest: "crawl_loop w url d ks st1 = Some (Inr fin)"
      by (auto split: sum.splits)
    from step [OF Cons.prems(2) False it] have I1: "I st1" .
    from Cons.IH [OF rest I1]
    have "I fin \<and> loop_exits fin
          \<and> (fin = st1 \<or> (\<exists>st k. I st \<and> \<not> loop_exits st \<and> iteration w url d k st = Inr fin))" .
    with it False Cons.prems(2) show ?thesis by blast
  qed
qed

subsection \<open>The budget\<close>

text \<open>
  Claim C2. With more than 200 pages and files at the top of the loop, the loop returns
  the state as it is, whatever the schedule: no iteration is started. And a run that
  returns more than 200 pages and files reached them in one iteration, from a state that
  held at most 200: the excess is what that single iteration added.
\<close>

theorem budget_ceiling:
  "(card (pages_set st) + card (files_set st) > 200
      \<longrightarrow> crawl_loop w url d sched st = Some (Inr st))
   \<and> (crawl_website w sched' url visited = Some (Inr fin)
        \<and> card (pages_set fin) + card (files_set fin) > 200
      \<longrightarrow> (\<exists>st k. card (pages_set st) + card (files_set st) \<le> 200
                \<and> iteration w url (fst (resolve_crawl_delay w url)) k st = Inr fin))"
proof (intro conjI impI)
  assume "card (pages_set st) + card (files_set st) > 200"
  then show "crawl_loop w url d sched st = Some (Inr st)"
    by (simp add: crawl_loop_exits loop_exits_def)
next
  assume a: "crawl_website w sched' url visited = Some (Inr fin)
        \<and> card (pages_set fin) + card (files_set fin) > 200"
  obtain dl evs where r: "resolve_crawl_delay w url = (dl, evs)"
    by (cases "resolve_crawl_delay w url")
  let ?init = "\<lparr>urls_to_crawl = [url], visited_urls = visited, pages_set = {},
                  files_set = {}, trace = evs\<rparr>"
  from a r have run: "crawl_loop w url dl sched' ?init = Some (Inr fin)"
    by (auto simp: crawl_website_def split: if_splits)
  from crawl_loop_last_step [OF run, of "\<lambda>s. True"]
  have "fin = ?init \<or> (\<exists>st k. \<not> loop_exits st \<and> iteration w url dl k st = Inr fin)"
    by simp
  moreover from a have "fin \<noteq> ?init" by auto
  ultimately obtain st k where "\<not> loop_exits st" "iteration w url dl k st = Inr fin"
    by blast
  then show "\<exists>st k. card (pages_set st) + card (files_set st) \<le> 200
                \<and> iteration w url (fst (resolve_crawl_delay w url)) k st = Inr fin"
    using r by (auto simp: loop_exits_def not_less intro!: exI[of _ st] exI[of _ k])
qed

lemma gallery_card:
  "card (set (map (\<lambda>n. ''i'' @ replicate n CHR ''x'') [0..<201])) = 201"
proof -
  have "inj_on (\<lambda>n. ''i'' @ replicate n CHR ''x'') {0..<201}"
    by (rule inj_onI) simp
  then show ?thesis by (simp add: card_image del: upt.simps)
qed

lemma gallery_step:
  "iteration gallery_site ''http://s/'' 1 0
     \<lparr>urls_to_crawl = [''http://s/''], visited_urls = {}, pages_set = {},
      files_set = {}, trace = [HttpGet ''http://s//robots.txt'']\<rparr> = Inr gallery_final"
  by (simp add: gallery_site_def gallery_final_def iteration_def pop_at_def seed_not_login
      seed_not_file seed_stripped a_internal visit_page_def sleep_one get_all_links_def
      count_files_and_images_def List.union_def List.insert_def Let_def strip_url_fragment_def
      del: substring.simps upt.simps)

lemma gallery_over: "card (pages_set gallery_final) + card (files_set gallery_final) = 202"
  using gallery_card by (simp add: gallery_final_def del: upt.simps)

lemma gallery_run: "crawl_website gallery_site [0] ''http://s/'' {} = Some (Inr gallery_final)"
proof -
  have fin: "loop_exits gallery_final"
    using gallery_over by (simp add: loop_exits_def)
  have rd: "resolve_crawl_delay gallery_site ''http://s/''
            = (1, [HttpGet ''http://s//robots.txt''])"
    by (simp add: resolve_crawl_delay_def get_crawl_delay_from_robots_txt_def gallery_site_def)
  have l: "launch_ok gallery_site" by (simp add: gallery_site_def)
  have init: "\<not> loop_exits \<lparr>urls_to_crawl = [''http://s/''], visited_urls = {}, pages_set = {},
      files_set = {}, trace = [HttpGet ''http://s//robots.txt'']\<rparr>"
    by (simp add: loop_exits_def)
  show ?thesis
    by (simp add: crawl_website_def rd l init fin gallery_step)
qed

theorem budget_ceiling_witness:
  "card (pages_set gallery_final) + card (files_set gallery_final) > 200
   \<and> urls_to_crawl gallery_final \<noteq> []
   \<and> crawl_loop gallery_site ''http://s/'' 1 [0, 0] gallery_final = Some (Inr gallery_final)
   \<and> crawl_website gallery_site [0] ''http://s/'' {} = Some (Inr gallery_final)
   \<and> (\<exists>st k. card (pages_set st) + card (files_set st) \<le> 200
         \<and> iteration gallery_site ''http://s/''
             (fst (resolve_crawl_delay gallery_site ''http://s/'')) k st = Inr gallery_final)"
  using budget_ceiling [where st = gallery_final and w = gallery_site and url = "''http://s/''"
          and d = 1 and sched = "[0, 0]" and sched' = "[0]" and visited = "{}"
          and fin = gallery_final]
        gallery_run gallery_over
  by (simp add: gallery_final_def)

subsection \<open>Login redirects\<close>

lemma split_on_sublist: "p \<in> set (split_on c s) \<Longrightarrow> sublist p s"
proof (induction s arbitrary: p)
  case Nil
  then show ?case by simp
next
  case (Cons x xs)
  show ?case
  proof (cases "x = c")
    case True
    with Cons show ?thesis by (auto simp: sublist_Cons_right)
  next
    case False
    obtain q qs where q: "split_on c xs = q # qs"
      using split_on_nonempty [of c xs] by (cases "split_on c xs") auto
    with False Cons.prems have "p = x # q \<or> p \<in> set qs" by simp
    then show ?thesis
    proof
      assume "p = x # q"
      moreover have "q = takeWhile (\<lambda>y. y \<noteq> c) xs"
        using hd_split_on [of c xs] q by simp
      ultimately have "prefix p (x # xs)"
        by (simp add: takeWhile_is_prefix)
      then show ?thesis by (rule prefix_imp_sublist)
    next
      assume "p \<in> set qs"
      with q Cons.IH [of p] show ?thesis by (simp add: sublist_Cons_right)
    qed
  qed
qed

lemma takeWhile_piece_sublist:
  assumes "n \<in> set (map (takeWhile P) (split_on c s))"
  shows "sublist n s"
proof -
  from assms obtain p where p: "p \<in> set (split_on c s)" and n: "n = takeWhile P p" by auto
  have "sublist n p" unfolding n by (rule prefix_imp_sublist) (rule takeWhile_is_prefix)
  with split_on_sublist [OF p] show ?thesis by (blast intro: sublist_order.order.trans)
qed

text \<open>
  Claim C6, as the code has it. For a URL that \<^verbatim>\<open>urlparse\<close> accepts,
  \<^verbatim>\<open>is_login_redirect\<close> is true exactly when the text \<^verbatim>\<open>sign_in\<close> occurs somewhere in
  the path and the text \<^verbatim>\<open>destination\<close> occurs somewhere in the query string; so it is
  true whenever a path segment is \<^verbatim>\<open>sign_in\<close> and a parameter is named
  \<^verbatim>\<open>destination\<close>.
\<close>

theorem is_login_redirect_substrings:
  "urlparse u = Inr p \<longrightarrow>
     is_login_redirect u
       = Inr ((\<exists>a b. path p = a @ ''sign_in'' @ b) \<and> (\<exists>c d. query p = c @ ''destination'' @ d))
     \<and> (spec_is_login_redirect u \<longrightarrow> is_login_redirect u = Inr True)"
  by (auto simp: is_login_redirect_def spec_is_login_redirect_def substring_sublist sublist_def
      dest!: split_on_sublist takeWhile_piece_sublist simp del: set_map)

lemma login_url_parsed:
  "urlparse ''http://s/sign_in?destination=/x''
     = Inr \<lparr>path = ''/sign_in'', query = ''destination=/x''\<rparr>"
  by (simp add: urlparse_eval)

lemma login_url_redirect: "is_login_redirect ''http://s/sign_in?destination=/x'' = Inr True"
  by (simp add: is_login_redirect_def login_url_parsed)

theorem is_login_redirect_substrings_witness:
  "urlparse ''http://s/sign_in?destination=/x''
     = Inr \<lparr>path = ''/sign_in'', query = ''destination=/x''\<rparr>
   \<and> spec_is_login_redirect ''http://s/sign_in?destination=/x''
   \<and> is_login_redirect ''http://s/sign_in?destination=/x'' = Inr True
   \<and> (\<exists>a b. ''/sign_in'' = a @ ''sign_in'' @ b)
   \<and> (\<exists>c d. ''destination=/x'' = c @ ''destination'' @ d)"
  using is_login_redirect_substrings [of "''http://s/sign_in?destination=/x''"
          "\<lparr>path = ''/sign_in'', query = ''destination=/x''\<rparr>"] login_url_redirect
  by (simp add: login_url_parsed spec_is_login_redirect_def)

lemma value_url_parsed:
  "urlparse ''http://s/sign_in?next=destination''
     = Inr \<lparr>path = ''/sign_in'', query = ''next=destination''\<rparr>"
  by (simp add: urlparse_eval)

text \<open>The URL \<^verbatim>\<open>http://s/sign_in?next=destination\<close> has no parameter named
  \<^verbatim>\<open>destination\<close> (it is the value of \<^verbatim>\<open>next\<close>), and is a login redirect for the code.\<close>

theorem is_login_redirect_segment_counterexample:
  "is_login_redirect ''http://s/sign_in?next=destination'' = Inr True
   \<and> \<not> spec_is_login_redirect ''http://s/sign_in?next=destination''"
  by (simp add: is_login_redirect_def spec_is_login_redirect_def value_url_parsed)

subsection \<open>Deduplication\<close>

lemma navigations_append: "navigations (xs @ ys) = navigations xs @ navigations ys"
  by (induction xs rule: navigations.induct) auto

lemma navigations_resolve: "navigations (snd (resolve_crawl_delay w url)) = []"
  by (auto simp: resolve_crawl_delay_def get_crawl_delay_from_robots_txt_def Let_def split: option.splits prod.splits)

lemma visit_page_frame:
  "visited_urls (visit_page w url d u st) = visited_urls st"
  "pages_set (visit_page w url d u st) = pages_set st"
  "navigations (trace (visit_page w url d u st)) = navigations (trace st) @ [u]"
  by (auto simp: visit_page_def Let_def navigations_append split: goto_result.splits prod.splits)

lemma iteration_cases:
  assumes "iteration w url d k st = Inr st'"
  shows "st' = st\<lparr>urls_to_crawl := snd (pop_at k (urls_to_crawl st))\<rparr>
       \<or> (strip_url_fragment (fst (pop_at k (urls_to_crawl st))) \<notin> visited_urls st
          \<and> st' = st\<lparr>urls_to_crawl := snd (pop_at k (urls_to_crawl st)),
                      files_set := insert (strip_url_fragment (fst (pop_at k (urls_to_crawl st))))
                                     (files_set st)\<rparr>)
       \<or> (strip_url_fragment (fst (pop_at k (urls_to_crawl st))) \<notin> visited_urls st
          \<and> st' = visit_page w url d (strip_url_fragment (fst (pop_at k (urls_to_crawl st))))
                    (st\<lparr>urls_to_crawl := snd (pop_at k (urls_to_crawl st)),
                        visited_urls := insert (strip_url_fragment (fst (pop_at k (urls_to_crawl st))))
                                          (visited_urls st),
                        pages_set := insert (strip_url_fragment (fst (pop_at k (urls_to_crawl st))))
                                       (pages_set st)\<rparr>))"
  using assms
  by (auto simp: iteration_def Let_def split: prod.splits sum.splits if_splits)

lemma dedup_inv_step:
  assumes "dedup_inv v0 st" and "iteration w url d k st = Inr st'"
  shows "dedup_inv v0 st'"
  using iteration_cases [OF assms(2)] assms(1)
  by (auto simp: dedup_inv_def visit_page_frame)

text \<open>
  Claim C1, as the code has it. The frontier may hold visited URLs; deduplication happens
  at dequeue. An iteration that pops a URL whose fragment-stripped form is in
  \<open>visited_urls\<close> and does not raise changes nothing but the frontier. And at the end of
  every run no URL has been navigated twice, the navigated URLs are exactly
  \<open>pages_set\<close>, and none of them was in the \<open>visited_urls\<close> the run was entered with.
\<close>

theorem visited_url_skipped_at_dequeue:
  "(strip_url_fragment (fst (pop_at k (urls_to_crawl st))) \<in> visited_urls st
      \<and> iteration w url d k st = Inr st'
    \<longrightarrow> st' = st\<lparr>urls_to_crawl := snd (pop_at k (urls_to_crawl st))\<rparr>)
   \<and> (crawl_website w sched url visited = Some (Inr fin)
    \<longrightarrow> distinct (navigations (trace fin))
        \<and> set (navigations (trace fin)) = pages_set fin
        \<and> pages_set fin \<inter> visited = {})"
proof (intro conjI impI)
  assume "strip_url_fragment (fst (pop_at k (urls_to_crawl st))) \<in> visited_urls st
      \<and> iteration w url d k st = Inr st'"
  then show "st' = st\<lparr>urls_to_crawl := snd (pop_at k (urls_to_crawl st))\<rparr>"
    using iteration_cases [of w url d k st st'] by auto
next
  assume a: "crawl_website w sched url visited = Some (Inr fin)"
  obtain dl evs where r: "resolve_crawl_delay w url = (dl, evs)"
    by (cases "resolve_crawl_delay w url")
  let ?init = "\<lparr>urls_to_crawl = [url], visited_urls = visited, pages_set = {},
                  files_set = {}, trace = evs\<rparr>"
  from a r have run: "crawl_loop w url dl sched ?init = Some (Inr fin)"
    by (auto simp: crawl_website_def split: if_splits)
  have "navigations evs = []" using navigations_resolve [of w url] r by simp
  then have "dedup_inv visited ?init" by (simp add: dedup_inv_def)
  from crawl_loop_last_step [OF run, of "dedup_inv visited", OF this]
  have "dedup_inv visited fin" by (blast intro: dedup_inv_step)
  then show "distinct (navigations (trace fin))"
    and "set (navigations (trace fin)) = pages_set fin"
    and "pages_set fin \<inter> visited = {}"
    by (auto simp: dedup_inv_def)
qed

lemma seed_internal: "substring ''http://s/'' ''http://s/''"
  by simp

lemma self_link_step1:
  "iteration self_link_site ''http://s/'' 1 0 self_link_start = Inr self_link_after"
  by (simp add: self_link_site_def self_link_start_def self_link_after_def iteration_def
      pop_at_def seed_not_login seed_not_file seed_stripped seed_internal visit_page_def sleep_one
      get_all_links_def count_files_and_images_def List.union_def List.insert_def Let_def
      del: substring.simps)

lemma self_link_step2:
  "iteration self_link_site ''http://s/'' 1 0 self_link_after
     = Inr (self_link_after\<lparr>urls_to_crawl := []\<rparr>)"
  by (simp add: self_link_after_def iteration_def pop_at_def seed_not_login seed_stripped
      Let_def del: substring.simps)

lemma self_link_run:
  "crawl_website self_link_site [0, 0] ''http://s/'' {}
     = Some (Inr (self_link_after\<lparr>urls_to_crawl := []\<rparr>))"
proof -
  have rd: "resolve_crawl_delay self_link_site ''http://s/''
            = (1, [HttpGet ''http://s//robots.txt''])"
    by (simp add: resolve_crawl_delay_def get_crawl_delay_from_robots_txt_def self_link_site_def)
  have l: "launch_ok self_link_site" by (simp add: self_link_site_def)
  have e0: "\<not> loop_exits self_link_start"
    by (simp add: loop_exits_def self_link_start_def)
  have e1: "\<not> loop_exits self_link_after"
    by (simp add: loop_exits_def self_link_after_def)
  have e2: "loop_exits (self_link_after\<lparr>urls_to_crawl := []\<rparr>)"
    by (simp add: loop_exits_def)
  have "crawl_loop self_link_site ''http://s/'' 1 [0, 0] self_link_start
          = Some (Inr (self_link_after\<lparr>urls_to_crawl := []\<rparr>))"
    by (simp add: e0 e1 e2 self_link_step1 self_link_step2)
  then show ?thesis
    by (simp add: crawl_website_def rd l self_link_start_def)
qed

text \<open>After the first iteration on a page that links to itself, the seed is both in the
  frontier and visited.\<close>

theorem frontier_visited_disjoint_counterexample:
  "iteration self_link_site ''http://s/'' 1 0 self_link_start = Inr self_link_after
   \<and> set (urls_to_crawl self_link_after) \<inter> visited_urls self_link_after \<noteq> {}"
  by (simp add: self_link_step1) (simp add: self_link_after_def)

theorem visited_url_skipped_at_dequeue_witness:
  "strip_url_fragment (fst (pop_at 0 (urls_to_crawl self_link_after)))
     \<in> visited_urls self_link_after
   \<and> iteration self_link_site ''http://s/'' 1 0 self_link_after
     = Inr (self_link_after\<lparr>urls_to_crawl := []\<rparr>)
   \<and> crawl_website self_link_site [0, 0] ''http://s/'' {}
     = Some (Inr (self_link_after\<lparr>urls_to_crawl := []\<rparr>))
   \<and> navigations (trace (self_link_after\<lparr>urls_to_crawl := []\<rparr>)) = [''http://s/'']
   \<and> pages_set (self_link_after\<lparr>urls_to_crawl := []\<rparr>) = {''http://s/''}"
  using visited_url_skipped_at_dequeue [where k = 0 and st = self_link_after
          and w = self_link_site and url = "''http://s/''" and d = 1
          and st' = "self_link_after\<lparr>urls_to_crawl := []\<rparr>" and sched = "[0, 0]"
          and visited = "{}" and fin = "self_link_after\<lparr>urls_to_crawl := []\<rparr>"]
        self_link_step2 self_link_run
  by (simp add: self_link_after_def pop_at_def seed_stripped)

subsection \<open>A failed fetch\<close>














subsection \<open>Fragments\<close>





















subsection \<open>Runs on the example sites\<close>

lemmas run_eval = iteration_def pop_at_def visit_page_def sleep_raises_def get_all_links_def
  count_files_and_images_def List.union_def List.insert_def Let_def loop_exits_def
  urlparse_eval file_extensions_def page_file_extensions_def strip_url_fragment_def

text \<open>
  Claim C5, at a failing input. The page has anchors to \<^verbatim>\<open>c.mp4\<close> and \<^verbatim>\<open>d.pdf\<close>. The
  video matches the extension list of the crawl loop (lines 79 to 81), and
  \<^verbatim>\<open>count_files_and_images\<close>, whose own list (line 45) has no media extension, returns
  the document alone.
\<close>

theorem media_links_not_extracted:
  "eval_anchors media_site ''http://s/'' = Some [''http://o/c.mp4'', ''http://o/d.pdf'']
   \<and> list_ex (\<lambda>ext. substring ext ''http://o/c.mp4'') file_extensions
   \<and> fst (count_files_and_images media_site ''http://s/'') = [''http://o/d.pdf'']"
  by (simp add: media_site_def count_files_and_images_def file_extensions_def
      page_file_extensions_def)

lemma broken_link_rejected: "is_login_redirect ''http://[?http://s/'' = Inl ValueError"
  by (simp add: urlparse_eval)

lemma broken_link_step1:
  "iteration broken_link_site ''http://s/'' 1 0
     \<lparr>urls_to_crawl = [''http://s/''], visited_urls = {}, pages_set = {}, files_set = {},
      trace = [HttpGet ''http://s//robots.txt'']\<rparr> = Inr broken_link_after"
  by (simp add: broken_link_site_def broken_link_after_def run_eval)

lemma broken_link_step2:
  "iteration broken_link_site ''http://s/'' 1 0 broken_link_after
     = Inl (ValueError, broken_link_after\<lparr>urls_to_crawl := []\<rparr>)"
  by (simp add: broken_link_after_def iteration_def pop_at_def broken_link_rejected
      strip_url_fragment_def)

text \<open>
  Claim C3, at a failing input. The browser session is set up, the seed page is crawled,
  and the second iteration pops the malformed link: \<^verbatim>\<open>urlparse\<close> raises inside
  \<^verbatim>\<open>is_login_redirect\<close>, which line 73 calls outside every \<^verbatim>\<open>try\<close>, and
  \<^verbatim>\<open>crawl_website\<close> raises \<^verbatim>\<open>ValueError\<close> to its caller instead of returning the page
  and the file it had found.
\<close>

theorem malformed_link_aborts_crawl:
  "launch_ok broken_link_site
   \<and> crawl_website broken_link_site [0, 0] ''http://s/'' {}
     = Some (Inl (ValueError, broken_link_after\<lparr>urls_to_crawl := []\<rparr>))"
proof -
  have rd: "resolve_crawl_delay broken_link_site ''http://s/''
            = (1, [HttpGet ''http://s//robots.txt''])"
    by (simp add: resolve_crawl_delay_def get_crawl_delay_from_robots_txt_def
        broken_link_site_def)
  have l: "launch_ok broken_link_site" by (simp add: broken_link_site_def)
  have e0: "\<not> loop_exits \<lparr>urls_to_crawl = [''http://s/''], visited_urls = {}, pages_set = {},
      files_set = {}, trace = [HttpGet ''http://s//robots.txt'']\<rparr>"
    by (simp add: loop_exits_def)
  have e1: "\<not> loop_exits broken_link_after"
    by (simp add: loop_exits_def broken_link_after_def)
  show ?thesis
    by (simp add: crawl_website_def rd l e0 e1 broken_link_step1 broken_link_step2)
qed

lemma dead_links_rd:
  "resolve_crawl_delay dead_links_site ''http://s/'' = (1, [HttpGet ''http://s//robots.txt''])"
  by (simp add: resolve_crawl_delay_def get_crawl_delay_from_robots_txt_def dead_links_site_def)

lemma dead_links_step1:
  "iteration dead_links_site ''http://s/'' 1 0
     \<lparr>urls_to_crawl = [''http://s/''], visited_urls = {}, pages_set = {}, files_set = {},
      trace = [HttpGet ''http://s//robots.txt'']\<rparr> = Inr dead_links_after"
  by (simp add: dead_links_site_def dead_links_after_def run_eval)

lemma dead_links_b_first:
  "crawl_loop dead_links_site ''http://s/'' 1 [0, 0] dead_links_after
     = Some (Inr (dead_links_after
          \<lparr>urls_to_crawl := [],
           visited_urls := {''http://s/'', ''http://s/b'', ''http://s/a''},
           pages_set := {''http://s/'', ''http://s/b'', ''http://s/a''},
           trace := [HttpGet ''http://s//robots.txt'', Goto ''http://s/'', Sleep 1,
                     Goto ''http://s/b'', Goto ''http://s/a'']\<rparr>))"
  by (simp add: dead_links_site_def dead_links_after_def run_eval insert_commute)

lemma dead_links_a_first:
  "crawl_loop dead_links_site ''http://s/'' 1 [1, 0] dead_links_after
     = Some (Inr (dead_links_after
          \<lparr>urls_to_crawl := [],
           visited_urls := {''http://s/'', ''http://s/b'', ''http://s/a''},
           pages_set := {''http://s/'', ''http://s/b'', ''http://s/a''},
           trace := [HttpGet ''http://s//robots.txt'', Goto ''http://s/'', Sleep 1,
                     Goto ''http://s/a'', Goto ''http://s/b'']\<rparr>))"
  by (simp add: dead_links_site_def dead_links_after_def run_eval insert_commute)

text \<open>
  Claim C8, at a failing input. Both linked pages make \<^verbatim>\<open>page.goto\<close> raise. Whichever of
  the two is popped first, the log of the run has the two navigations next to each other:
  the exception leaves the \<^verbatim>\<open>try\<close> block before \<^verbatim>\<open>asyncio.sleep\<close>, so no sleep separates
  the failed navigation from the next one.
\<close>

theorem no_sleep_after_failed_navigation:
  "goto dead_links_site ''http://s/a'' = GotoRaises
   \<and> goto dead_links_site ''http://s/b'' = GotoRaises
   \<and> (\<exists>fin. crawl_website dead_links_site [0, 0, 0] ''http://s/'' {} = Some (Inr fin)
         \<and> trace fin = [HttpGet ''http://s//robots.txt'', Goto ''http://s/'', Sleep 1,
                         Goto ''http://s/b'', Goto ''http://s/a''])
   \<and> (\<exists>fin. crawl_website dead_links_site [0, 1, 0] ''http://s/'' {} = Some (Inr fin)
         \<and> trace fin = [HttpGet ''http://s//robots.txt'', Goto ''http://s/'', Sleep 1,
                         Goto ''http://s/a'', Goto ''http://s/b''])"
proof -
  have l: "launch_ok dead_links_site" by (simp add: dead_links_site_def)
  have e0: "\<not> loop_exits \<lparr>urls_to_crawl = [''http://s/''], visited_urls = {}, pages_set = {},
      files_set = {}, trace = [HttpGet ''http://s//robots.txt'']\<rparr>"
    by (simp add: loop_exits_def)
  have g: "goto dead_links_site ''http://s/a'' = GotoRaises"
    "goto dead_links_site ''http://s/b'' = GotoRaises"
    by (simp_all add: dead_links_site_def)
  have r0: "crawl_loop dead_links_site ''http://s/'' 1 (0 # ks)
      \<lparr>urls_to_crawl = [''http://s/''], visited_urls = {}, pages_set = {},
       files_set = {}, trace = [HttpGet ''http://s//robots.txt'']\<rparr>
    = crawl_loop dead_links_site ''http://s/'' 1 ks dead_links_after" for ks
    by (simp add: e0 dead_links_step1)
  note a_first = dead_links_a_first [unfolded One_nat_def]
  show ?thesis
    by (simp add: g crawl_website_def dead_links_rd l r0 dead_links_b_first
        a_first del: crawl_loop.simps)
qed

subsection \<open>The default argument\<close>

lemma self_link_second_run:
  "crawl_website self_link_site [0, 0] ''http://s/'' {''http://s/''}
     = Some (Inr \<lparr>urls_to_crawl = [], visited_urls = {''http://s/''}, pages_set = {},
                   files_set = {}, trace = [HttpGet ''http://s//robots.txt'']\<rparr>)"
proof -
  have rd: "resolve_crawl_delay self_link_site ''http://s/''
            = (1, [HttpGet ''http://s//robots.txt''])"
    by (simp add: resolve_crawl_delay_def get_crawl_delay_from_robots_txt_def self_link_site_def)
  have l: "launch_ok self_link_site" by (simp add: self_link_site_def)
  show ?thesis
    by (simp add: crawl_website_def rd l loop_exits_def iteration_def pop_at_def seed_stripped
        seed_not_login)
qed

text \<open>
  Claim C4, at a failing input. Two calls without a \<^verbatim>\<open>visited_urls\<close> argument, one after
  the other in a fresh process, on the same one-page site. The first returns the seed as
  its page and leaves it in the default set; the second starts with that set, skips the
  seed and returns no page at all.
\<close>

theorem default_visited_leaks:
  "call_crawl_website self_link_site [0, 0] ''http://s/'' None process_start
     = (Some (Inr (self_link_after\<lparr>urls_to_crawl := []\<rparr>)),
        \<lparr>default_visited = {''http://s/''}\<rparr>)
   \<and> pages_set (self_link_after\<lparr>urls_to_crawl := []\<rparr>) = {''http://s/''}
   \<and> call_crawl_website self_link_site [0, 0] ''http://s/'' None
        \<lparr>default_visited = {''http://s/''}\<rparr>
     = (Some (Inr \<lparr>urls_to_crawl = [], visited_urls = {''http://s/''}, pages_set = {},
                    files_set = {}, trace = [HttpGet ''http://s//robots.txt'']\<rparr>),
        \<lparr>default_visited = {''http://s/''}\<rparr>)"
  by (simp add: call_crawl_website_def process_start_def self_link_run self_link_second_run
      final_visited_def)
     (simp add: self_link_after_def)

subsection \<open>Exceptions that leave the crawl\<close>

text \<open>Navigation, the DOM queries and \<^verbatim>\<open>robots.txt\<close> never make \<^verbatim>\<open>crawl_website\<close>
  raise: what reaches the caller is a failure to set up the browser, or the
  \<^verbatim>\<open>ValueError\<close> of \<^verbatim>\<open>urlparse\<close> on a URL it rejects.\<close>

lemma is_login_redirect_raises: "is_login_redirect u = Inl e \<Longrightarrow> e = ValueError"
  by (auto simp: is_login_redirect_def urlparse_def Let_def split: sum.splits if_splits)

lemma iteration_raises:
  "iteration w url d k st = Inl (e, st') \<Longrightarrow>
     is_login_redirect (strip_url_fragment (fst (pop_at k (urls_to_crawl st)))) = Inl e"
  by (auto simp: iteration_def Let_def split: prod.splits sum.splits if_splits)

lemma crawl_loop_raises:
  "crawl_loop w url d sched st = Some (Inl (e, st')) \<Longrightarrow> \<exists>u. is_login_redirect u = Inl e"
proof (induction sched arbitrary: st)
  case Nil
  then show ?case by (simp split: if_splits)
next
  case (Cons k ks)
  show ?case
  proof (cases "iteration w url d k st")
    case (Inl raised)
    with Cons.prems have "iteration w url d k st = Inl (e, st')"
      by (simp split: if_splits)
    then show ?thesis by (blast dest: iteration_raises)
  next
    case (Inr st1)
    with Cons.prems have "crawl_loop w url d ks st1 = Some (Inl (e, st'))"
      by (simp split: if_splits)
    then show ?thesis by (rule Cons.IH)
  qed
qed

lemma crawl_website_raises:
  assumes "crawl_website w sched url visited = Some (Inl (e, st))"
  shows "(e = BrowserError \<and> \<not> launch_ok w)
       \<or> (e = ValueError \<and> launch_ok w \<and> (\<exists>u. urlparse u = Inl ValueError))"
proof (cases "launch_ok w")
  case False
  with assms show ?thesis by (simp add: crawl_website_def)
next
  case True
  with assms obtain dl st0 where "crawl_loop w url dl sched st0 = Some (Inl (e, st))"
    by (auto simp: crawl_website_def split: prod.splits)
  then obtain u where u: "is_login_redirect u = Inl e" by (blast dest: crawl_loop_raises)
  then have "e = ValueError" by (rule is_login_redirect_raises)
  moreover from u have "urlparse u = Inl e"
    by (auto simp: is_login_redirect_def split: sum.splits)
  ultimately show ?thesis using True by blast
qed

end
